theory Spec2Isabelle
  imports Main "HOL-Library.List_Lexorder" "HOL-Library.Char_ord" "HOL-Library.Sublist"
begin

section \<open>Direct messaging: the hook \<open>useDirectMessages\<close> and its table\<close>

text \<open>
  The development embeds \<^verbatim>\<open>src/hooks/useDirectMessages.ts\<close> and the migration that
  creates \<^verbatim>\<open>public.direct_messages\<close> with its row-level security policies.
  Every asynchronous function of the hook is modelled as one atomic step on the pair of
  the database and the hook's React state; awaits are not interleaving points here.
  Two things that the sources leave to their environment are arguments of the model: the
  order in which the database returns rows of equal \<^verbatim>\<open>created_at\<close>, and what the
  realtime client does with a second subscription to a channel of the same name.
  Identifiers (UUIDs) and message texts are strings, \<^verbatim>\<open>created_at\<close> is a point in time
  counted in the server's clock ticks.
\<close>

type_synonym user_id = string
type_synonym timestamp = nat

text \<open>The queries order by \<^verbatim>\<open>created_at\<close> alone. The order of rows with equal
  \<^verbatim>\<open>created_at\<close> is the database's choice, made anew at every query: a rank of the row
  ids, by which such rows are returned.\<close>

type_synonym tie_order = "string \<Rightarrow> nat"

subsection \<open>Data model\<close>

text \<open>The interface \<^verbatim>\<open>DirectMessage\<close>: a table row, with the two optional display names
  that the hook adds for presentation (absent in the table).\<close>

record direct_message =
  id_dm :: string
  sender_id :: user_id
  recipient_id :: user_id
  message :: string
  is_read :: bool
  created_at :: timestamp
  sender_name :: "string option"
  recipient_name :: "string option"

text \<open>The interface \<^verbatim>\<open>Conversation\<close>.\<close>

record conversation =
  doctor_id :: user_id
  doctor_name :: string
  hospital_name :: "string option"
  specialty :: "string option"
  last_message :: string
  last_message_time :: timestamp
  unread_count :: nat

text \<open>The columns of \<^verbatim>\<open>profiles\<close> and \<^verbatim>\<open>hospitals\<close> that the hook selects.\<close>

record profile =
  id_profile :: user_id
  full_name :: string
  specialty_profile :: "string option"
  hospital_id :: "string option"

record hospital =
  id_hospital :: string
  name :: string

text \<open>The database: \<^verbatim>\<open>auth.users\<close> (the target of both foreign keys), the messages
  table in insertion order, and the two lookup tables.\<close>

record database =
  users :: "user_id list"
  direct_messages :: "direct_message list"
  profiles :: "profile list"
  hospitals :: "hospital list"

text \<open>The React state of the hook. The flag \<^verbatim>\<open>sending\<close> is true only while
  \<^verbatim>\<open>sendMessage\<close> runs and is not kept.\<close>

record hook_state =
  messages :: "direct_message list"
  conversations :: "conversation list"
  loading :: bool

datatype store_error = RlsViolation | ForeignKeyViolation | UniqueViolation

datatype send_error = ValidationError | AuthenticationError | StoreError store_error

subsection \<open>The table and its policies\<close>

text \<open>Policy \<^verbatim>\<open>"Users can view their messages"\<close>:
  \<^verbatim>\<open>FOR SELECT USING (sender_id = auth.uid() OR recipient_id = auth.uid())\<close>.\<close>

definition can_view :: "user_id \<Rightarrow> direct_message \<Rightarrow> bool" where
  "can_view uid m \<longleftrightarrow> sender_id m = uid \<or> recipient_id m = uid"

text \<open>\<^verbatim>\<open>.order('created_at', { ascending: true })\<close> and its descending twin. Rows with equal
  \<^verbatim>\<open>created_at\<close> come by the rank \<open>\<phi>\<close> that the database chose for this query (both
  sorts are stable, so the second keeps the order of the first among equal
  \<^verbatim>\<open>created_at\<close>). The primary key makes the ids distinct, so every order of such rows is
  the order of some rank.\<close>

definition order_asc :: "tie_order \<Rightarrow> direct_message list \<Rightarrow> direct_message list" where
  "order_asc \<phi> rows = sort_key created_at (sort_key (\<lambda>m. \<phi> (id_dm m)) rows)"

definition order_desc :: "tie_order \<Rightarrow> direct_message list \<Rightarrow> direct_message list" where
  "order_desc \<phi> rows =
     rev (sort_key created_at (rev (sort_key (\<lambda>m. \<phi> (id_dm m)) rows)))"

text \<open>The query of \<^verbatim>\<open>fetchConversations\<close>:
  \<^verbatim>\<open>.or(sender_id.eq.U,recipient_id.eq.U).order('created_at', {ascending: false})\<close>,
  run as user \<open>uid\<close>.\<close>

definition select_involving ::
  "tie_order \<Rightarrow> user_id \<Rightarrow> user_id \<Rightarrow> database \<Rightarrow> direct_message list" where
  "select_involving \<phi> uid userId db =
     order_desc \<phi> (filter (\<lambda>m. can_view uid m \<and> (sender_id m = userId \<or> recipient_id m = userId))
                   (direct_messages db))"

text \<open>The query of \<^verbatim>\<open>fetchMessages\<close>:
  \<^verbatim>\<open>.or(and(sender_id.eq.U,recipient_id.eq.D),and(sender_id.eq.D,recipient_id.eq.U))\<close>
  ascending by \<^verbatim>\<open>created_at\<close>.\<close>

definition select_thread ::
  "tie_order \<Rightarrow> user_id \<Rightarrow> user_id \<Rightarrow> user_id \<Rightarrow> database \<Rightarrow> direct_message list" where
  "select_thread \<phi> uid userId doctorId db =
     order_asc \<phi> (filter (\<lambda>m. can_view uid m \<and>
                   ((sender_id m = userId \<and> recipient_id m = doctorId) \<or>
                    (sender_id m = doctorId \<and> recipient_id m = userId)))
                 (direct_messages db))"

text \<open>The row an insert creates: \<^verbatim>\<open>is_read\<close> takes its default \<^verbatim>\<open>false\<close>; the server
  supplies \<^verbatim>\<open>id\<close> (\<^verbatim>\<open>gen_random_uuid()\<close>) and \<^verbatim>\<open>created_at\<close> (\<^verbatim>\<open>now()\<close>), which are
  arguments here.\<close>

definition new_row :: "string \<Rightarrow> timestamp \<Rightarrow> user_id \<Rightarrow> user_id \<Rightarrow> string \<Rightarrow> direct_message" where
  "new_row new_id now sender recipient text_body =
     \<lparr>id_dm = new_id, sender_id = sender, recipient_id = recipient, message = text_body,
      is_read = False, created_at = now, sender_name = None, recipient_name = None\<rparr>"

text \<open>\<^verbatim>\<open>INSERT\<close> as user \<open>uid\<close>. Policy \<^verbatim>\<open>"Users can send messages"\<close>:
  \<^verbatim>\<open>WITH CHECK (sender_id = auth.uid())\<close>; both user columns reference
  \<^verbatim>\<open>auth.users(id)\<close>; \<^verbatim>\<open>id\<close> is the primary key. The policy is checked on the new
  row first, the unique index when the row is inserted, the foreign keys after it.
  Nothing compares sender and recipient.\<close>

definition insert_message ::
  "user_id \<Rightarrow> string \<Rightarrow> timestamp \<Rightarrow> user_id \<Rightarrow> user_id \<Rightarrow> string \<Rightarrow> database
     \<Rightarrow> store_error + database" where
  "insert_message uid new_id now sender recipient text_body db =
     (if sender \<noteq> uid then Inl RlsViolation
      else if new_id \<in> set (map id_dm (direct_messages db)) then Inl UniqueViolation
      else if sender \<notin> set (users db) \<or> recipient \<notin> set (users db) then Inl ForeignKeyViolation
      else Inr (db\<lparr>direct_messages :=
                     direct_messages db @ [new_row new_id now sender recipient text_body]\<rparr>))"

text \<open>\<^verbatim>\<open>.update({ is_read: true }).in('id', ids)\<close> as user \<open>uid\<close>. Policy
  \<^verbatim>\<open>"Users can mark messages as read"\<close>: \<^verbatim>\<open>FOR UPDATE USING (recipient_id = auth.uid())\<close>.
  A \<^verbatim>\<open>USING\<close> expression filters the rows the statement can see: a row that fails it is
  skipped, and the statement still succeeds.\<close>

definition mark_row :: "user_id \<Rightarrow> string list \<Rightarrow> direct_message \<Rightarrow> direct_message" where
  "mark_row uid ids m =
     (if id_dm m \<in> set ids \<and> recipient_id m = uid then m\<lparr>is_read := True\<rparr> else m)"

definition markRead :: "user_id \<Rightarrow> string list \<Rightarrow> database \<Rightarrow> store_error + database" where
  "markRead uid ids db =
     Inr (db\<lparr>direct_messages := map (mark_row uid ids) (direct_messages db)\<rparr>)"

text \<open>The hook never looks at the answer of an update.\<close>

definition after_update :: "database \<Rightarrow> store_error + database \<Rightarrow> database" where
  "after_update db r = (case r of Inl _ \<Rightarrow> db | Inr db' \<Rightarrow> db')"

subsection \<open>JavaScript helpers\<close>

text \<open>\<^verbatim>\<open>String.prototype.trim\<close>: white space and line terminators among the code units
  below 256 (tab, LF, VT, FF, CR, space, no-break space).\<close>

definition is_ws :: "char \<Rightarrow> bool" where
  "is_ws c \<longleftrightarrow> (of_char c :: nat) \<in> {9, 10, 11, 12, 13, 32, 160}"

definition trim :: "string \<Rightarrow> string" where
  "trim s = rev (dropWhile is_ws (rev (dropWhile is_ws s)))"

text \<open>\<^verbatim>\<open>x || fallback\<close> on a possibly missing string: the empty string is falsy too.\<close>

definition or_else :: "string option \<Rightarrow> string \<Rightarrow> string" where
  "or_else x d = (case x of None \<Rightarrow> d | Some s \<Rightarrow> if s = [] then d else s)"

definition or_null :: "string option \<Rightarrow> string option" where
  "or_null x = (case x of None \<Rightarrow> None | Some s \<Rightarrow> if s = [] then None else Some s)"

text \<open>A JavaScript \<^verbatim>\<open>Map\<close> keeps its keys in insertion order: \<^verbatim>\<open>set\<close> replaces the value
  of a present key in place and appends an absent one.\<close>

fun Map_set :: "'k \<Rightarrow> 'v \<Rightarrow> ('k \<times> 'v) list \<Rightarrow> ('k \<times> 'v) list" where
  "Map_set k v [] = [(k, v)]"
| "Map_set k v (p # ps) = (if fst p = k then (k, v) # ps else p # Map_set k v ps)"

definition Map_get :: "('k \<times> 'v) list \<Rightarrow> 'k \<Rightarrow> 'v option" where
  "Map_get m k = map_of m k"

definition Map_has :: "('k \<times> 'v) list \<Rightarrow> 'k \<Rightarrow> bool" where
  "Map_has m k \<longleftrightarrow> map_of m k \<noteq> None"

text \<open>\<^verbatim>\<open>new Map(pairs)\<close>: a later pair overrides an earlier one with the same key.\<close>

definition Map_new :: "('k \<times> 'v) list \<Rightarrow> ('k \<times> 'v) list" where
  "Map_new pairs = foldl (\<lambda>m p. Map_set (fst p) (snd p) m) [] pairs"

definition Map_values :: "('k \<times> 'v) list \<Rightarrow> 'v list" where
  "Map_values m = map snd m"

subsection \<open>\<^verbatim>\<open>fetchConversations\<close>\<close>

text \<open>Lines 54--59: the ids of the other parties, and lines 61--75: their profiles, each
  with the name of its hospital.\<close>

definition doctorIds :: "user_id \<Rightarrow> direct_message list \<Rightarrow> user_id list" where
  "doctorIds userId allMessages =
     concat (map (\<lambda>msg. (if sender_id msg \<noteq> userId then [sender_id msg] else []) @
                         (if recipient_id msg \<noteq> userId then [recipient_id msg] else []))
               allMessages)"

definition hospitalIds :: "profile list \<Rightarrow> string list" where
  "hospitalIds ps =
     concat (map (\<lambda>p. case hospital_id p of None \<Rightarrow> [] | Some h \<Rightarrow> if h = [] then [] else [h]) ps)"

definition hospitalMap :: "database \<Rightarrow> profile list \<Rightarrow> (string \<times> string) list" where
  "hospitalMap db ps =
     Map_new (map (\<lambda>h. (id_hospital h, name h))
       (filter (\<lambda>h. id_hospital h \<in> set (hospitalIds ps)) (hospitals db)))"

definition profileMap ::
  "database \<Rightarrow> user_id \<Rightarrow> direct_message list \<Rightarrow> (user_id \<times> profile \<times> string option) list" where
  "profileMap db userId allMessages =
     (let ps = filter (\<lambda>p. id_profile p \<in> set (doctorIds userId allMessages)) (profiles db);
          hm = hospitalMap db ps
      in Map_new (map (\<lambda>p. (id_profile p,
                             (p, or_null (case hospital_id p of None \<Rightarrow> None
                                          | Some h \<Rightarrow> Map_get hm h)))) ps))"

text \<open>The other party of a message (line 81).\<close>

definition otherDoctorId :: "user_id \<Rightarrow> direct_message \<Rightarrow> user_id" where
  "otherDoctorId userId msg =
     (if sender_id msg = userId then recipient_id msg else sender_id msg)"

text \<open>The entry created for the first message of a counterpart (lines 85--93).\<close>

definition new_conversation ::
  "(user_id \<times> profile \<times> string option) list \<Rightarrow> user_id \<Rightarrow> direct_message \<Rightarrow> conversation" where
  "new_conversation pm d msg =
     \<lparr>doctor_id = d,
      doctor_name = or_else (map_option (\<lambda>(p, h). full_name p) (Map_get pm d)) ''Unknown Doctor'',
      hospital_name = or_null (case Map_get pm d of None \<Rightarrow> None | Some (p, h) \<Rightarrow> h),
      specialty = or_null (case Map_get pm d of None \<Rightarrow> None | Some (p, h) \<Rightarrow> specialty_profile p),
      last_message = message msg,
      last_message_time = created_at msg,
      unread_count = 0\<rparr>"

text \<open>The body of the \<^verbatim>\<open>forEach\<close> of lines 80--101, on the map built so far.\<close>

definition add_message ::
  "user_id \<Rightarrow> (user_id \<times> profile \<times> string option) list \<Rightarrow> (user_id \<times> conversation) list
     \<Rightarrow> direct_message \<Rightarrow> (user_id \<times> conversation) list" where
  "add_message userId pm conversationMap msg =
     (let d = otherDoctorId userId msg;
          cm = (if \<not> Map_has conversationMap d
                then Map_set d (new_conversation pm d msg) conversationMap
                else conversationMap)
      in if recipient_id msg = userId \<and> \<not> is_read msg
         then (case Map_get cm d of
                 None \<Rightarrow> cm
               | Some conv \<Rightarrow> Map_set d (conv\<lparr>unread_count := unread_count conv + 1\<rparr>) cm)
         else cm)"

text \<open>Lines 49--103: from the answer of the query to the list handed to
  \<^verbatim>\<open>setConversations\<close>. No step of it sorts.\<close>

definition buildConversations ::
  "database \<Rightarrow> user_id \<Rightarrow> direct_message list \<Rightarrow> conversation list" where
  "buildConversations db userId allMessages =
     (if allMessages = [] then []
      else Map_values (foldl (add_message userId (profileMap db userId allMessages)) [] allMessages))"

text \<open>The full rescan: query and aggregation for a signed-in user.\<close>

definition rescan :: "tie_order \<Rightarrow> user_id \<Rightarrow> database \<Rightarrow> conversation list" where
  "rescan \<phi> userId db = buildConversations db userId (select_involving \<phi> userId userId db)"

text \<open>\<^verbatim>\<open>fetchConversations\<close>: without a signed-in user nothing is set; \<^verbatim>\<open>finally\<close> clears
  \<^verbatim>\<open>loading\<close> on every path.\<close>

definition fetchConversations ::
  "user_id option \<Rightarrow> tie_order \<Rightarrow> database \<Rightarrow> hook_state \<Rightarrow> hook_state" where
  "fetchConversations auth \<phi> db s =
     (case auth of
        None \<Rightarrow> s\<lparr>loading := False\<rparr>
      | Some userId \<Rightarrow> s\<lparr>conversations := rescan \<phi> userId db, loading := False\<rparr>)"

subsection \<open>\<^verbatim>\<open>fetchMessages\<close>\<close>

text \<open>Lines 126--140: the two display names, \<^verbatim>\<open>'Unknown'\<close> when the profile is missing.\<close>

definition nameMap :: "database \<Rightarrow> user_id list \<Rightarrow> (user_id \<times> string) list" where
  "nameMap db ids =
     Map_new (map (\<lambda>p. (id_profile p, full_name p))
                (filter (\<lambda>p. id_profile p \<in> set ids) (profiles db)))"

definition with_names :: "(user_id \<times> string) list \<Rightarrow> direct_message \<Rightarrow> direct_message" where
  "with_names nm m =
     m\<lparr>sender_name := Some (or_else (Map_get nm (sender_id m)) ''Unknown''),
       recipient_name := Some (or_else (Map_get nm (recipient_id m)) ''Unknown'')\<rparr>"

text \<open>Line 143: the ids of the fetched messages that the user received and has not read.\<close>

definition unreadIds :: "user_id \<Rightarrow> direct_message list \<Rightarrow> string list" where
  "unreadIds userId data_rows =
     map id_dm (filter (\<lambda>m. recipient_id m = userId \<and> \<not> is_read m) data_rows)"

text \<open>\<^verbatim>\<open>fetchMessages\<close>: sets the thread, then marks the unread received messages as read
  in one update, which is not sent for an empty id list. It leaves \<^verbatim>\<open>conversations\<close>
  alone.\<close>

definition fetchMessages ::
  "user_id option \<Rightarrow> tie_order \<Rightarrow> user_id \<Rightarrow> database \<times> hook_state
     \<Rightarrow> database \<times> hook_state" where
  "fetchMessages auth \<phi> doctorId w =
     (case auth of
        None \<Rightarrow> w
      | Some userId \<Rightarrow>
          (let db = fst w;
               data_rows = select_thread \<phi> userId userId doctorId db;
               nm = nameMap db [userId, doctorId];
               s = (snd w)\<lparr>messages := map (with_names nm) data_rows\<rparr>;
               ids = unreadIds userId data_rows
           in (if length ids > 0 then after_update db (markRead userId ids db) else db, s)))"

subsection \<open>\<^verbatim>\<open>sendMessage\<close>\<close>

text \<open>\<^verbatim>\<open>sendMessage\<close> returns \<^verbatim>\<open>false\<close> before any call when the trimmed text is empty
  (\<open>ValidationError\<close>), and \<^verbatim>\<open>false\<close> after a toast when no user is signed in or the
  insert fails. The recipient is not compared with the sender.\<close>

definition sendMessage ::
  "user_id option \<Rightarrow> string \<Rightarrow> timestamp \<Rightarrow> database \<Rightarrow> user_id \<Rightarrow> string
     \<Rightarrow> send_error option \<times> database" where
  "sendMessage auth new_id now db recipientId messageText =
     (if trim messageText = [] then (Some ValidationError, db)
      else case auth of
        None \<Rightarrow> (Some AuthenticationError, db)
      | Some userId \<Rightarrow>
          (case insert_message userId new_id now userId recipientId (trim messageText) db of
             Inl e \<Rightarrow> (Some (StoreError e), db)
           | Inr db' \<Rightarrow> (None, db')))"

definition returned :: "send_error option \<times> database \<Rightarrow> bool" where
  "returned r \<longleftrightarrow> fst r = None"

subsection \<open>The realtime handler\<close>

text \<open>Lines 224--234: the payload with the sender's name.\<close>

definition enrichedMsg :: "database \<Rightarrow> direct_message \<Rightarrow> direct_message" where
  "enrichedMsg db newMsg =
     newMsg\<lparr>sender_name :=
       Some (or_else (map_option full_name
                        (find (\<lambda>p. id_profile p = sender_id newMsg) (profiles db)))
               ''Unknown'')\<rparr>"

text \<open>Line 237: \<^verbatim>\<open>selectedDoctorId && (...)\<close>; an absent or empty selection is falsy.\<close>

definition viewing :: "user_id option \<Rightarrow> direct_message \<Rightarrow> bool" where
  "viewing selectedDoctorId newMsg =
     (case selectedDoctorId of
        None \<Rightarrow> False
      | Some d \<Rightarrow> d \<noteq> [] \<and> (sender_id newMsg = d \<or> recipient_id newMsg = d))"

text \<open>The callback of lines 218--251 for a session of \<open>userId\<close>. Its
  \<^verbatim>\<open>selectedDoctorId\<close> is the one of the render that subscribed it, captured in the
  closure: an insert that does not involve the user is dropped; one of the captured
  conversation is appended to the thread and, when received, marked as read; then the
  conversations are fetched again.\<close>

definition on_insert ::
  "user_id \<Rightarrow> user_id option \<Rightarrow> tie_order \<Rightarrow> direct_message \<Rightarrow> database \<times> hook_state
     \<Rightarrow> database \<times> hook_state" where
  "on_insert userId selectedDoctorId \<phi> newMsg w =
     (if sender_id newMsg \<noteq> userId \<and> recipient_id newMsg \<noteq> userId then w
      else
        (let db = fst w; s = snd w;
             s1 = (if viewing selectedDoctorId newMsg
                   then s\<lparr>messages := messages s @ [enrichedMsg db newMsg]\<rparr> else s);
             db1 = (if viewing selectedDoctorId newMsg \<and> recipient_id newMsg = userId
                    then after_update db (markRead userId [id_dm newMsg] db) else db)
         in (db1, fetchConversations (Some userId) \<phi> db1 s1)))"

subsection \<open>A session and its environment\<close>

text \<open>The effect of lines 202--261 subscribes a callback on every change of
  \<^verbatim>\<open>selectedDoctorId\<close> and never unsubscribes: the function that removes the channel is
  the result of the asynchronous \<^verbatim>\<open>setupSubscription\<close>, not of the effect, so React never
  gets it. Which callbacks of the channel \<^verbatim>\<open>'direct-messages'\<close> are live after a further
  subscription is decided by the realtime client, which is not part of the sources: it is
  the argument \<open>client\<close>, from the selections captured by the live callbacks and the
  selection of the new subscription to the selections captured by the callbacks live
  afterwards.\<close>

type_synonym realtime_client = "user_id option list \<Rightarrow> user_id option \<Rightarrow> user_id option list"

text \<open>Two clients: one hands out the existing channel for a known name, so that only the
  callback of the first subscription ever fires; one opens a further channel at every
  subscription, so that all callbacks fire.\<close>

definition keep_first :: realtime_client where
  "keep_first cs sel = (if cs = [] then [sel] else cs)"

definition keep_all :: realtime_client where
  "keep_all cs sel = cs @ [sel]"

text \<open>One session of the user: the shared database, the prop \<^verbatim>\<open>selectedDoctorId\<close> of
  the hook, the selections captured by the live callbacks, and the React state.\<close>

record world =
  store :: database
  selected :: "user_id option"
  callbacks :: "user_id option list"
  hook :: hook_state

text \<open>What can happen, each with the tie order of the query it runs: the session fetches
  its conversations (on mount, or through \<^verbatim>\<open>refetchConversations\<close>); the page passes
  another \<^verbatim>\<open>selectedDoctorId\<close>, which runs \<^verbatim>\<open>fetchMessages\<close> for a non-empty selection and
  subscribes again (the same selection runs neither effect); the page calls
  \<^verbatim>\<open>refetchMessages\<close>; some client calls \<^verbatim>\<open>sendMessage\<close> and, when the row is inserted,
  the channel delivers it to every live callback of the session; another session runs
  \<^verbatim>\<open>fetchMessages\<close>.\<close>

datatype event =
    Refetch tie_order
  | Select "user_id option" tie_order
  | RefetchMessages tie_order
  | Send "user_id option" user_id string string timestamp tie_order
  | RemoteOpen user_id user_id tie_order

definition set_pair :: "world \<Rightarrow> database \<times> hook_state \<Rightarrow> world" where
  "set_pair w p = w\<lparr>store := fst p, hook := snd p\<rparr>"

text \<open>\<^verbatim>\<open>if (selectedDoctorId) fetchMessages(selectedDoctorId)\<close>, lines 196--198 and 270.\<close>

definition open_selected ::
  "user_id \<Rightarrow> tie_order \<Rightarrow> user_id option \<Rightarrow> database \<times> hook_state
     \<Rightarrow> database \<times> hook_state" where
  "open_selected userId \<phi> sel p =
     (case sel of
        None \<Rightarrow> p
      | Some d \<Rightarrow> if d = [] then p else fetchMessages (Some userId) \<phi> d p)"

text \<open>The delivery of an inserted row: the live callbacks run one after the other. Only the
  conversations fetched by the last one stay in the state, so one tie order stands for the
  queries of all.\<close>

definition deliver ::
  "user_id \<Rightarrow> tie_order \<Rightarrow> user_id option list \<Rightarrow> direct_message \<Rightarrow> database \<times> hook_state
     \<Rightarrow> database \<times> hook_state" where
  "deliver userId \<phi> cs newMsg p = foldl (\<lambda>q sel. on_insert userId sel \<phi> newMsg q) p cs"

fun step :: "realtime_client \<Rightarrow> user_id \<Rightarrow> world \<Rightarrow> event \<Rightarrow> world" where
  "step client userId w (Refetch \<phi>) =
     w\<lparr>hook := fetchConversations (Some userId) \<phi> (store w) (hook w)\<rparr>"
| "step client userId w (Select sel \<phi>) =
     (if selected w = sel then w
      else set_pair (w\<lparr>selected := sel, callbacks := client (callbacks w) sel\<rparr>)
             (open_selected userId \<phi> sel (store w, hook w)))"
| "step client userId w (RefetchMessages \<phi>) =
     set_pair w (open_selected userId \<phi> (selected w) (store w, hook w))"
| "step client userId w (Send auth recipientId messageText new_id now \<phi>) =
     (case sendMessage auth new_id now (store w) recipientId messageText of
        (Some e, db') \<Rightarrow> w
      | (None, db') \<Rightarrow>
          set_pair w (deliver userId \<phi> (callbacks w) (last (direct_messages db')) (db', hook w)))"
| "step client userId w (RemoteOpen a d \<phi>) =
     w\<lparr>store := fst (fetchMessages (Some a) \<phi> d (store w, hook w))\<rparr>"

definition run :: "realtime_client \<Rightarrow> user_id \<Rightarrow> world \<Rightarrow> event list \<Rightarrow> world" where
  "run client userId w evs = foldl (step client userId) w evs"

text \<open>The number of messages that \<open>c\<close> sent to \<open>u\<close> and that are not read.\<close>

definition unreadCount :: "database \<Rightarrow> user_id \<Rightarrow> user_id \<Rightarrow> nat" where
  "unreadCount db u c =
     length (filter (\<lambda>m. recipient_id m = u \<and> sender_id m = c \<and> \<not> is_read m)
               (direct_messages db))"

subsection \<open>Notions used in the statements\<close>

text \<open>The keys of a map that starts empty, in insertion order: each element at its first
  occurrence.\<close>

fun first_occ :: "'a list \<Rightarrow> 'a list" where
  "first_occ [] = []"
| "first_occ (x # xs) = x # filter (\<lambda>y. y \<noteq> x) (first_occ xs)"

text \<open>The entry of counterpart \<open>d\<close> after the loop over \<open>ms\<close>: created from the first
  message of \<open>d\<close>, counting the unread received messages of \<open>d\<close>.\<close>

definition summary ::
  "user_id \<Rightarrow> (user_id \<times> profile \<times> string option) list \<Rightarrow> direct_message list \<Rightarrow> user_id
     \<Rightarrow> conversation" where
  "summary userId pm ms d =
     (new_conversation pm d (hd (filter (\<lambda>m. otherDoctorId userId m = d) ms)))
       \<lparr>unread_count :=
          length (filter (\<lambda>m. otherDoctorId userId m = d \<and> recipient_id m = userId \<and> \<not> is_read m) ms)\<rparr>"

text \<open>The partition of the messages of \<open>userId\<close> that belongs to counterpart \<open>d\<close>: the
  rows whose two parties are \<open>userId\<close> and \<open>d\<close>. The row \<open>m\<close> has counterpart \<open>d\<close> for
  \<open>userId\<close>.\<close>

definition is_counterpart :: "user_id \<Rightarrow> direct_message \<Rightarrow> user_id \<Rightarrow> bool" where
  "is_counterpart userId m d \<longleftrightarrow>
     (sender_id m = userId \<and> recipient_id m = d) \<or> (sender_id m = d \<and> recipient_id m = userId)"

definition partition_of :: "database \<Rightarrow> user_id \<Rightarrow> user_id \<Rightarrow> direct_message list" where
  "partition_of db userId d = filter (\<lambda>m. is_counterpart userId m d) (direct_messages db)"

text \<open>A conversation that shows message \<open>m\<close> as the last one of its counterpart.\<close>

definition displays :: "user_id \<Rightarrow> conversation \<Rightarrow> direct_message \<Rightarrow> bool" where
  "displays userId c m \<longleftrightarrow>
     is_counterpart userId m (doctor_id c) \<and> last_message c = message m \<and>
     last_message_time c = created_at m"

text \<open>The order the specification asks for: later last message first, equal times by
  counterpart id ascending; and the order by time alone.\<close>

definition before_by_time_then_id :: "conversation \<Rightarrow> conversation \<Rightarrow> bool" where
  "before_by_time_then_id c d \<longleftrightarrow>
     last_message_time d < last_message_time c \<or>
     (last_message_time c = last_message_time d \<and> doctor_id c \<le> doctor_id d)"

definition before_by_time :: "conversation \<Rightarrow> conversation \<Rightarrow> bool" where
  "before_by_time c d \<longleftrightarrow> last_message_time d \<le> last_message_time c"

text \<open>The unread messages from \<open>c\<close> to \<open>u\<close> other than the rows with id \<open>i\<close>.\<close>

definition unread_except :: "database \<Rightarrow> user_id \<Rightarrow> user_id \<Rightarrow> string \<Rightarrow> nat" where
  "unread_except db u c i =
     length (filter (\<lambda>m. recipient_id m = u \<and> sender_id m = c \<and> \<not> is_read m \<and> id_dm m \<noteq> i)
               (direct_messages db))"

text \<open>A later state of the table: no row is lost, a row changes in \<^verbatim>\<open>is_read\<close> at most, and
  a read row stays read.\<close>

definition evolves :: "direct_message list \<Rightarrow> direct_message list \<Rightarrow> bool" where
  "evolves xs ys \<longleftrightarrow>
     length xs \<le> length ys \<and>
     (\<forall>i < length xs. ys ! i = (xs ! i)\<lparr>is_read := is_read (ys ! i)\<rparr> \<and>
                       (is_read (xs ! i) \<longrightarrow> is_read (ys ! i)))"




text \<open>Lines 97--100: the increment of the unread count, as a function of the entry.\<close>

definition bump :: "user_id \<Rightarrow> direct_message \<Rightarrow> conversation \<Rightarrow> conversation" where
  "bump u x c = (if recipient_id x = u \<and> \<not> is_read x then c\<lparr>unread_count := unread_count c + 1\<rparr> else c)"

subsection \<open>Example data\<close>

text \<open>The database returns rows of equal \<^verbatim>\<open>created_at\<close> in insertion order.\<close>

definition by_insertion :: tie_order where
  "by_insertion i = 0"

text \<open>The database returns row \<open>m2\<close> before any other row of the same \<^verbatim>\<open>created_at\<close>.\<close>

definition m2_first :: tie_order where
  "m2_first i = (if i = ''m2'' then 0 else 1)"

text \<open>Two doctors wrote to \<open>u\<close> at the same instant; \<open>b\<close>'s row was inserted first.\<close>

definition msg_b :: direct_message where
  "msg_b = new_row ''m1'' 5 ''b'' ''u'' ''hello''"

definition msg_a :: direct_message where
  "msg_a = new_row ''m2'' 5 ''a'' ''u'' ''hi''"

definition db_two :: database where
  "db_two =
     \<lparr>users = [''u'', ''a'', ''b''],
      direct_messages = [msg_b, msg_a],
      profiles = [\<lparr>id_profile = ''a'', full_name = ''Dr A'',
                    specialty_profile = Some ''Cardiology'', hospital_id = Some ''h1''\<rparr>],
      hospitals = [\<lparr>id_hospital = ''h1'', name = ''General''\<rparr>]\<rparr>"

definition conv_b :: conversation where
  "conv_b =
     \<lparr>doctor_id = ''b'', doctor_name = ''Unknown Doctor'', hospital_name = None,
      specialty = None, last_message = ''hello'', last_message_time = 5, unread_count = 1\<rparr>"

definition conv_a :: conversation where
  "conv_a =
     \<lparr>doctor_id = ''a'', doctor_name = ''Dr A'', hospital_name = Some ''General'',
      specialty = Some ''Cardiology'', last_message = ''hi'', last_message_time = 5,
      unread_count = 1\<rparr>"

text \<open>The same with an answer of \<open>u\<close> to \<open>a\<close>, and a hook that has fetched nothing yet.\<close>

definition msg_out :: direct_message where
  "msg_out = new_row ''m3'' 6 ''u'' ''a'' ''thanks''"

definition db_three :: database where
  "db_three = db_two\<lparr>direct_messages := [msg_b, msg_a, msg_out]\<rparr>"

definition hook0 :: hook_state where
  "hook0 = \<lparr>messages = [], conversations = [], loading = True\<rparr>"

text \<open>A fourth row, \<open>a\<close> writing to \<open>u\<close> again, and a session of \<open>u\<close> that has not fetched
  anything yet.\<close>

definition msg_new :: direct_message where
  "msg_new = new_row ''m4'' 9 ''a'' ''u'' ''ping''"

definition db_four :: database where
  "db_four = db_two\<lparr>direct_messages := [msg_b, msg_a, msg_out, msg_new]\<rparr>"

definition conv_a_ping :: conversation where
  "conv_a_ping =
     \<lparr>doctor_id = ''a'', doctor_name = ''Dr A'', hospital_name = Some ''General'',
      specialty = Some ''Cardiology'', last_message = ''ping'', last_message_time = 9,
      unread_count = 1\<rparr>"

text \<open>Sessions of \<open>u\<close> right after mount with no selection: the effect has subscribed its
  first callback, which captured the absent selection.\<close>

definition w_two :: world where
  "w_two = \<lparr>store = db_two, selected = None, callbacks = [None], hook = hook0\<rparr>"

definition w_three :: world where
  "w_three = \<lparr>store = db_three, selected = None, callbacks = [None], hook = hook0\<rparr>"

section \<open>The aggregation loop in closed form\<close>

lemma first_occ_set [simp]: "set (first_occ xs) = set xs"
  by (induction xs) auto

lemma first_occ_distinct [simp]: "distinct (first_occ xs)"
  by (induction xs) auto

lemma first_occ_snoc:
  "first_occ (xs @ [x]) = (if x \<in> set xs then first_occ xs else first_occ xs @ [x])"
  by (induction xs) auto

lemma map_of_keyed: "map_of (map (\<lambda>k. (k, g k)) ks) k = (if k \<in> set ks then Some (g k) else None)"
  by (induction ks) auto

lemma Map_set_absent: "k \<notin> set ks \<Longrightarrow> Map_set k v (map (\<lambda>k. (k, g k)) ks) = map (\<lambda>k. (k, g k)) ks @ [(k, v)]"
  by (induction ks) auto

lemma Map_set_present:
  "k \<in> set ks \<Longrightarrow> distinct ks \<Longrightarrow> Map_set k v (map (\<lambda>j. (j, g j)) ks) = map (\<lambda>j. (j, (g(k := v)) j)) ks"
  by (induction ks) auto

lemma summary_snoc_other:
  "otherDoctorId u x \<noteq> d \<Longrightarrow> summary u pm (ms @ [x]) d = summary u pm ms d"
  by (simp add: summary_def)

lemma summary_snoc_new:
  assumes a: "otherDoctorId u x \<notin> set (map (otherDoctorId u) ms)"
  shows "summary u pm (ms @ [x]) (otherDoctorId u x) =
     (new_conversation pm (otherDoctorId u x) x)
       \<lparr>unread_count := (if recipient_id x = u \<and> \<not> is_read x then 1 else 0)\<rparr>"
proof -
  have n: "otherDoctorId u m \<noteq> otherDoctorId u x" if "m \<in> set ms" for m
    using a that by (metis image_eqI set_map)
  have "filter (\<lambda>m. otherDoctorId u m = otherDoctorId u x) ms = []"
    using n by (simp add: filter_empty_conv)
  moreover have "filter (\<lambda>m. otherDoctorId u m = otherDoctorId u x \<and> recipient_id m = u \<and> \<not> is_read m) ms = []"
    using n by (simp add: filter_empty_conv)
  ultimately show ?thesis by (simp add: summary_def)
qed

lemma summary_snoc_old:
  "otherDoctorId u x \<in> set (map (otherDoctorId u) ms) \<Longrightarrow>
   summary u pm (ms @ [x]) (otherDoctorId u x) =
     (summary u pm ms (otherDoctorId u x))
       \<lparr>unread_count := unread_count (summary u pm ms (otherDoctorId u x)) +
                          (if recipient_id x = u \<and> \<not> is_read x then 1 else 0)\<rparr>"
proof -
  assume a: "otherDoctorId u x \<in> set (map (otherDoctorId u) ms)"
  then have "filter (\<lambda>m. otherDoctorId u m = otherDoctorId u x) ms \<noteq> []"
    by (auto simp: filter_empty_conv)
  then show ?thesis by (simp add: summary_def)
qed

lemma new_conversation_unread [simp]: "unread_count (new_conversation pm d x) = 0"
  by (simp add: new_conversation_def)

lemma add_message_keyed:
  assumes "distinct ks"
  shows "add_message u pm (map (\<lambda>k. (k, g k)) ks) x =
     map (\<lambda>k. (k, (g(otherDoctorId u x :=
                 bump u x (if otherDoctorId u x \<in> set ks then g (otherDoctorId u x)
                           else new_conversation pm (otherDoctorId u x) x))) k))
       (if otherDoctorId u x \<in> set ks then ks else ks @ [otherDoctorId u x])"
proof (cases "otherDoctorId u x \<in> set ks")
  case True
  then show ?thesis using assms
    by (auto simp: add_message_def Map_has_def Map_get_def map_of_keyed Map_set_present Let_def bump_def)
next
  case False
  define d where "d = otherDoctorId u x"
  define nc where "nc = new_conversation pm d x"
  define ks' where "ks' = ks @ [d]"
  have dk: "distinct ks'" and din: "d \<in> set ks'" and dnot: "d \<notin> set ks"
    using False assms by (simp_all add: d_def ks'_def)
  have cm: "Map_set d nc (map (\<lambda>k. (k, g k)) ks) = map (\<lambda>k. (k, (g(d := nc)) k)) ks'"
    using dnot by (simp add: Map_set_absent ks'_def)
  have has: "\<not> Map_has (map (\<lambda>k. (k, g k)) ks) d"
    using dnot by (simp add: Map_has_def map_of_keyed)
  have get: "Map_get (map (\<lambda>k. (k, (g(d := nc)) k)) ks') d = Some nc"
    using din by (simp add: Map_get_def map_of_keyed)
  have upd: "Map_set d v (map (\<lambda>k. (k, (g(d := nc)) k)) ks') = map (\<lambda>k. (k, (g(d := v)) k)) ks'" for v
    using Map_set_present[OF din dk, of v "g(d := nc)"] by simp
  have "add_message u pm (map (\<lambda>k. (k, g k)) ks) x =
        map (\<lambda>k. (k, (g(d := bump u x nc)) k)) ks'"
  proof (cases "recipient_id x = u \<and> \<not> is_read x")
    case True
    then show ?thesis
      unfolding add_message_def Let_def d_def[symmetric] nc_def[symmetric]
      by (simp only: has cm get upd bump_def not_False_eq_True if_True option.case) simp
  next
    case False
    then show ?thesis
      unfolding add_message_def Let_def d_def[symmetric] nc_def[symmetric]
      by (simp only: has cm get upd bump_def not_False_eq_True if_True if_False option.case)
  qed
  then show ?thesis using dnot by (simp add: d_def[symmetric] nc_def ks'_def)
qed

lemma foldl_add_message:
  "foldl (add_message u pm) [] ms =
     map (\<lambda>d. (d, summary u pm ms d)) (first_occ (map (otherDoctorId u) ms))"
proof (induction ms rule: rev_induct)
  case Nil
  then show ?case by simp
next
  case (snoc x ms)
  let ?d = "otherDoctorId u x"
  let ?ks = "first_occ (map (otherDoctorId u) ms)"
  have pt: "((summary u pm ms)(?d := bump u x (if ?d \<in> set ?ks then summary u pm ms ?d
                                               else new_conversation pm ?d x))) k =
            summary u pm (ms @ [x]) k" for k
  proof (cases "k = ?d")
    case False
    then show ?thesis by (simp add: summary_snoc_other)
  next
    case True
    show ?thesis
    proof (cases "?d \<in> set ?ks")
      case True
      with \<open>k = ?d\<close> show ?thesis using summary_snoc_old[of u x ms pm] by (simp add: bump_def)
    next
      case False
      with \<open>k = ?d\<close> show ?thesis using summary_snoc_new[of u x ms pm] by (simp add: bump_def)
    qed
  qed
  have "foldl (add_message u pm) [] (ms @ [x]) =
        add_message u pm (map (\<lambda>d. (d, summary u pm ms d)) ?ks) x"
    using snoc.IH by simp
  also have "\<dots> = map (\<lambda>d. (d, summary u pm (ms @ [x]) d))
                     (if ?d \<in> set ?ks then ?ks else ?ks @ [?d])"
    unfolding add_message_keyed[OF first_occ_distinct] pt ..
  also have "\<dots> = map (\<lambda>d. (d, summary u pm (ms @ [x]) d)) (first_occ (map (otherDoctorId u) (ms @ [x])))"
    by (simp add: first_occ_snoc)
  finally show ?case .
qed

lemma buildConversations_closed:
  "buildConversations db u ms =
     map (summary u (profileMap db u ms) ms) (first_occ (map (otherDoctorId u) ms))"
  by (cases "ms = []") (simp_all add: buildConversations_def foldl_add_message Map_values_def comp_def)

section \<open>The answer of the query\<close>

lemma set_order_desc [simp]: "set (order_desc \<phi> xs) = set xs"
  by (simp add: order_desc_def)

lemma length_order_desc [simp]: "length (order_desc \<phi> xs) = length xs"
  by (simp add: order_desc_def)

lemma filter_order_desc: "filter P (order_desc \<phi> xs) = order_desc \<phi> (filter P xs)"
  by (simp add: order_desc_def filter_sort flip: rev_filter)

lemma sorted_order_desc: "sorted_wrt (\<lambda>a b. created_at b \<le> created_at a) (order_desc \<phi> xs)"
proof -
  let ?ys = "sort_key (\<lambda>m. \<phi> (id_dm m)) xs"
  have "sorted (map created_at (sort_key created_at (rev ?ys)))" by simp
  then have "sorted_wrt (\<lambda>a b. created_at a \<le> created_at b) (sort_key created_at (rev ?ys))"
    by (simp add: sorted_wrt_map)
  then show ?thesis by (simp add: order_desc_def sorted_wrt_rev)
qed

lemma doctor_id_summary [simp]: "doctor_id (summary u pm ms d) = d"
  by (simp add: summary_def new_conversation_def)

lemma unread_count_summary:
  "unread_count (summary u pm ms d) =
     length (filter (\<lambda>m. otherDoctorId u m = d \<and> recipient_id m = u \<and> \<not> is_read m) ms)"
  by (simp add: summary_def)

lemma rescan_closed:
  "rescan \<phi> u db = map (summary u (profileMap db u (select_involving \<phi> u u db)) (select_involving \<phi> u u db))
                   (first_occ (map (otherDoctorId u) (select_involving \<phi> u u db)))"
  by (simp add: rescan_def buildConversations_closed)

lemma unread_in_answer:
  "length (filter (\<lambda>m. otherDoctorId u m = d \<and> recipient_id m = u \<and> \<not> is_read m)
             (select_involving \<phi> u u db)) = unreadCount db u d"
proof -
  have "(\<lambda>m. (can_view u m \<and> (sender_id m = u \<or> recipient_id m = u)) \<and>
             (otherDoctorId u m = d \<and> recipient_id m = u \<and> \<not> is_read m)) =
        (\<lambda>m. recipient_id m = u \<and> sender_id m = d \<and> \<not> is_read m)"
    by (auto simp: can_view_def otherDoctorId_def)
  then show ?thesis
    by (simp add: select_involving_def filter_order_desc unreadCount_def)
qed

lemma unread_count_rescan:
  "c \<in> set (rescan \<phi> u db) \<Longrightarrow> unread_count c = unreadCount db u (doctor_id c)"
  by (auto simp: rescan_closed unread_count_summary unread_in_answer)

lemma last_message_time_summary:
  "last_message_time (summary u pm ms d) = created_at (hd (filter (\<lambda>m. otherDoctorId u m = d) ms))"
  by (simp add: summary_def new_conversation_def)

lemma last_message_summary:
  "last_message (summary u pm ms d) = message (hd (filter (\<lambda>m. otherDoctorId u m = d) ms))"
  by (simp add: summary_def new_conversation_def)

lemma first_times_sorted:
  "sorted_wrt (\<lambda>a b. created_at b \<le> created_at a) ms \<Longrightarrow>
   sorted_wrt (\<lambda>a b. b \<le> a)
     (map (\<lambda>d. created_at (hd (filter (\<lambda>m. otherDoctorId u m = d) ms)))
        (first_occ (map (otherDoctorId u) ms)))"
proof (induction ms)
  case Nil
  then show ?case by simp
next
  case (Cons x xs)
  let ?g = "\<lambda>ms d. created_at (hd (filter (\<lambda>m. otherDoctorId u m = d) ms))"
  let ?ks = "first_occ (map (otherDoctorId u) xs)"
  have ih: "sorted_wrt (\<lambda>a b. b \<le> a) (map (?g xs) ?ks)"
    using Cons by simp
  have tail_eq: "map (?g (x # xs)) (filter (\<lambda>y. y \<noteq> otherDoctorId u x) ?ks) =
                 map (?g xs) (filter (\<lambda>y. y \<noteq> otherDoctorId u x) ?ks)"
    by (rule map_cong) auto
  have tail_sorted: "sorted_wrt (\<lambda>a b. b \<le> a) (map (?g xs) (filter (\<lambda>y. y \<noteq> otherDoctorId u x) ?ks))"
    using ih by (simp add: sorted_wrt_map sorted_wrt_filter)
  have le: "?g xs d \<le> created_at x" if "d \<in> set ?ks" for d
  proof -
    from that have "filter (\<lambda>m. otherDoctorId u m = d) xs \<noteq> []"
      by (auto simp: filter_empty_conv)
    then have "hd (filter (\<lambda>m. otherDoctorId u m = d) xs) \<in> set (filter (\<lambda>m. otherDoctorId u m = d) xs)"
      by (rule hd_in_set)
    then have "hd (filter (\<lambda>m. otherDoctorId u m = d) xs) \<in> set xs" by simp
    with Cons.prems show ?thesis by simp
  qed
  have head: "?g (x # xs) (otherDoctorId u x) = created_at x" by simp
  have "map (?g (x # xs)) (first_occ (map (otherDoctorId u) (x # xs))) =
        ?g (x # xs) (otherDoctorId u x) #
          map (?g (x # xs)) (filter (\<lambda>y. y \<noteq> otherDoctorId u x) ?ks)"
    by (simp only: list.map first_occ.simps)
  also have "\<dots> = created_at x # map (?g xs) (filter (\<lambda>y. y \<noteq> otherDoctorId u x) ?ks)"
    by (simp only: head tail_eq)
  finally have eq: "map (?g (x # xs)) (first_occ (map (otherDoctorId u) (x # xs))) =
        created_at x # map (?g xs) (filter (\<lambda>y. y \<noteq> otherDoctorId u x) ?ks)" .
  have "\<forall>t \<in> set (map (?g xs) (filter (\<lambda>y. y \<noteq> otherDoctorId u x) ?ks)). t \<le> created_at x"
    using le by auto
  with tail_sorted show ?case
    by (simp only: eq sorted_wrt.simps)
qed

lemma last_sorted_Max:
  fixes f :: "'a \<Rightarrow> nat"
  assumes "sorted (map f ys)" "ys \<noteq> []"
  shows "f (last ys) = Max (f ` set ys)"
proof -
  have "\<forall>y \<in> set ys. f y \<le> f (last ys)"
    using assms
  proof (induction ys)
    case Nil then show ?case by simp
  next
    case (Cons y ys)
    then show ?case by (cases "ys = []") auto
  qed
  moreover have "f (last ys) \<in> f ` set ys" using assms(2) by simp
  ultimately show ?thesis by (intro Max_eqI[symmetric]) auto
qed

lemma hd_order_desc:
  assumes "P \<noteq> []"
  shows "hd (order_desc \<phi> P) \<in> set P" "created_at (hd (order_desc \<phi> P)) = Max (created_at ` set P)"
proof -
  let ?ys = "sort_key created_at (rev (sort_key (\<lambda>m. \<phi> (id_dm m)) P))"
  have "length ?ys = length P" by simp
  then have ne: "?ys \<noteq> []" using assms by (metis length_0_conv)
  have h: "hd (order_desc \<phi> P) = last ?ys"
    by (simp add: order_desc_def hd_rev)
  show "hd (order_desc \<phi> P) \<in> set P"
    using last_in_set[OF ne] by (simp add: h)
  show "created_at (hd (order_desc \<phi> P)) = Max (created_at ` set P)"
    using last_sorted_Max[of created_at ?ys] ne by (simp add: h)
qed

lemma filter_key_distinct: "distinct ks \<Longrightarrow> d \<in> set ks \<Longrightarrow> filter (\<lambda>k. k = d) ks = [d]"
  by (induction ks) (auto simp: filter_empty_conv)

lemma partition_in_answer:
  "filter (\<lambda>m. otherDoctorId u m = d) (select_involving \<phi> u u db) = order_desc \<phi> (partition_of db u d)"
proof -
  have "(\<lambda>m. (can_view u m \<and> (sender_id m = u \<or> recipient_id m = u)) \<and> otherDoctorId u m = d) =
        (\<lambda>m. is_counterpart u m d)"
    by (auto simp: can_view_def otherDoctorId_def is_counterpart_def)
  then show ?thesis
    by (simp add: select_involving_def filter_order_desc partition_of_def)
qed

lemma rescan_entry:
  assumes "partition_of db u d \<noteq> []"
  shows "filter (\<lambda>c. doctor_id c = d) (rescan \<phi> u db) =
           [summary u (profileMap db u (select_involving \<phi> u u db)) (select_involving \<phi> u u db) d]"
proof -
  let ?ms = "select_involving \<phi> u u db"
  let ?ks = "first_occ (map (otherDoctorId u) ?ms)"
  have "order_desc \<phi> (partition_of db u d) \<noteq> []"
    using assms by (metis length_order_desc length_0_conv)
  then have "filter (\<lambda>m. otherDoctorId u m = d) ?ms \<noteq> []"
    by (simp add: partition_in_answer)
  then have "d \<in> set ?ks" by (auto simp: filter_empty_conv)
  then have "filter (\<lambda>k. k = d) ?ks = [d]"
    by (simp add: filter_key_distinct)
  then show ?thesis
    by (simp add: rescan_closed filter_map comp_def)
qed

lemma first_messages_subseq:
  "subseq (map (\<lambda>k. hd (filter (\<lambda>m. otherDoctorId u m = k) ms))
             (first_occ (map (otherDoctorId u) ms))) ms"
proof (induction ms)
  case Nil
  then show ?case by simp
next
  case (Cons x xs)
  let ?g = "\<lambda>ms k. hd (filter (\<lambda>m. otherDoctorId u m = k) ms)"
  let ?ks = "first_occ (map (otherDoctorId u) xs)"
  have tail_eq: "map (?g (x # xs)) (filter (\<lambda>y. y \<noteq> otherDoctorId u x) ?ks) =
                 map (?g xs) (filter (\<lambda>y. y \<noteq> otherDoctorId u x) ?ks)"
    by (rule map_cong) auto
  have "subseq (filter (\<lambda>y. y \<noteq> otherDoctorId u x) ?ks) ?ks" by simp
  then have "subseq (map (?g xs) (filter (\<lambda>y. y \<noteq> otherDoctorId u x) ?ks)) (map (?g xs) ?ks)"
    by (rule subseq_map)
  from this Cons.IH have tail: "subseq (map (?g xs) (filter (\<lambda>y. y \<noteq> otherDoctorId u x) ?ks)) xs"
    by (rule subseq_order.trans)
  have head: "?g (x # xs) (otherDoctorId u x) = x" by simp
  have "map (?g (x # xs)) (first_occ (map (otherDoctorId u) (x # xs))) =
        ?g (x # xs) (otherDoctorId u x) #
          map (?g (x # xs)) (filter (\<lambda>y. y \<noteq> otherDoctorId u x) ?ks)"
    by (simp only: list.map first_occ.simps)
  also have "\<dots> = x # map (?g xs) (filter (\<lambda>y. y \<noteq> otherDoctorId u x) ?ks)"
    by (simp only: head tail_eq)
  finally have eq: "map (?g (x # xs)) (first_occ (map (otherDoctorId u) (x # xs))) =
        x # map (?g xs) (filter (\<lambda>y. y \<noteq> otherDoctorId u x) ?ks)" .
  show ?case unfolding eq using tail by (rule subseq_Cons2)
qed

lemma first_message_counterpart:
  assumes "k \<in> set (map (otherDoctorId u) (select_involving \<phi> u u db))"
  shows "is_counterpart u (hd (filter (\<lambda>m. otherDoctorId u m = k) (select_involving \<phi> u u db))) k"
proof -
  let ?ms = "select_involving \<phi> u u db"
  let ?f = "filter (\<lambda>m. otherDoctorId u m = k) ?ms"
  define m where "m = hd ?f"
  from assms have "?f \<noteq> []" by (auto simp: filter_empty_conv)
  then have "hd ?f \<in> set ?f" by (rule hd_in_set)
  then have "m \<in> set ?ms" and ok: "otherDoctorId u m = k" by (simp_all add: m_def)
  then have inv: "sender_id m = u \<or> recipient_id m = u"
    by (auto simp: select_involving_def)
  from inv ok have "is_counterpart u m k"
    by (auto simp: otherDoctorId_def is_counterpart_def split: if_splits)
  then show ?thesis by (simp add: m_def)
qed

lemma rescan_displays:
  "list_all2 (displays u) (rescan \<phi> u db)
     (map (\<lambda>k. hd (filter (\<lambda>m. otherDoctorId u m = k) (select_involving \<phi> u u db)))
        (first_occ (map (otherDoctorId u) (select_involving \<phi> u u db))))"
  unfolding rescan_closed list_all2_map1 list_all2_map2
  by (rule list_all2_same[THEN iffD2])
     (auto simp: displays_def last_message_summary last_message_time_summary
        intro: first_message_counterpart)

section \<open>Properties of the conversation list\<close>

lemma rescan_db_two: "rescan by_insertion ''u'' db_two = [conv_b, conv_a]"
  by code_simp

text \<open>
  Claim C2, as amended. For every order in which the database returns rows of equal
  \<^verbatim>\<open>created_at\<close>, the list that \<^verbatim>\<open>fetchConversations\<close> builds is ordered by
  \<^verbatim>\<open>last_message_time\<close>, latest first, and its conversations stand in the order of the
  query's answer: read from first to last, they display messages that follow one another
  in the answer. The hook sorts nothing itself.
\<close>

theorem conversations_in_answer_order:
  "sorted_wrt before_by_time (rescan \<phi> u db) \<and>
   (\<exists>ms. subseq ms (select_involving \<phi> u u db) \<and> list_all2 (displays u) (rescan \<phi> u db) ms)"
proof -
  have "sorted_wrt (\<lambda>a b. b \<le> a) (map last_message_time (rescan \<phi> u db))"
    using first_times_sorted[OF sorted_order_desc, of u]
    by (simp add: rescan_closed comp_def last_message_time_summary select_involving_def)
  then have 1: "sorted_wrt before_by_time (rescan \<phi> u db)"
    by (simp add: sorted_wrt_map before_by_time_def[abs_def])
  from first_messages_subseq rescan_displays
  have 2: "\<exists>ms. subseq ms (select_involving \<phi> u u db) \<and>
                list_all2 (displays u) (rescan \<phi> u db) ms"
    by blast
  from 1 2 show ?thesis by blast
qed

text \<open>
  Claim C2, as stated, fails: for two conversations whose last messages carry the same
  \<^verbatim>\<open>created_at\<close> the list keeps the order in which the query answered them, here \<open>b\<close>
  before \<open>a\<close>, not the ascending order of the counterpart ids.
\<close>

theorem conversations_tie_break_counterexample:
  "\<not> sorted_wrt before_by_time_then_id (rescan by_insertion ''u'' db_two)"
  by (simp add: rescan_db_two before_by_time_then_id_def conv_a_def conv_b_def)

text \<open>
  Claim C4. When counterpart \<open>d\<close> and owner \<open>u\<close> have exchanged a message, the list holds
  exactly one conversation for \<open>d\<close>, and its \<^verbatim>\<open>last_message\<close> and \<^verbatim>\<open>last_message_time\<close>
  are the text and \<^verbatim>\<open>created_at\<close> of a message between the two whose \<^verbatim>\<open>created_at\<close> is
  the maximum among the messages between the two.
\<close>

theorem last_message_is_newest:
  "partition_of db u d \<noteq> [] \<Longrightarrow>
   \<exists>c m. filter (\<lambda>c. doctor_id c = d) (rescan \<phi> u db) = [c] \<and>
         m \<in> set (partition_of db u d) \<and>
         last_message c = message m \<and>
         last_message_time c = created_at m \<and>
         created_at m = Max (created_at ` set (partition_of db u d))"
proof -
  assume ne: "partition_of db u d \<noteq> []"
  let ?ms = "select_involving \<phi> u u db"
  let ?c = "summary u (profileMap db u ?ms) ?ms d"
  let ?m = "hd (order_desc \<phi> (partition_of db u d))"
  have "filter (\<lambda>c. doctor_id c = d) (rescan \<phi> u db) = [?c]" by (rule rescan_entry[OF ne])
  moreover have "?m \<in> set (partition_of db u d)" by (rule hd_order_desc(1)[OF ne])
  moreover have "last_message ?c = message ?m"
    by (simp add: last_message_summary partition_in_answer)
  moreover have "last_message_time ?c = created_at ?m"
    by (simp add: last_message_time_summary partition_in_answer)
  moreover have "created_at ?m = Max (created_at ` set (partition_of db u d))"
    by (rule hd_order_desc(2)[OF ne])
  ultimately show ?thesis by blast
qed

theorem last_message_is_newest_witness:
  "partition_of db_three ''u'' ''a'' \<noteq> [] \<and>
   (\<exists>c m. filter (\<lambda>c. doctor_id c = ''a'') (rescan by_insertion ''u'' db_three) = [c] \<and>
         m \<in> set (partition_of db_three ''u'' ''a'') \<and>
         last_message c = message m \<and>
         last_message_time c = created_at m \<and>
         created_at m = Max (created_at ` set (partition_of db_three ''u'' ''a''))) \<and>
   map last_message (filter (\<lambda>c. doctor_id c = ''a'') (rescan by_insertion ''u'' db_three))
     = [''thanks'']"
proof -
  have h: "partition_of db_three ''u'' ''a'' \<noteq> []" by code_simp
  have v: "map last_message (filter (\<lambda>c. doctor_id c = ''a'')
             (rescan by_insertion ''u'' db_three)) = [''thanks'']"
    by code_simp
  from last_message_is_newest[OF h, of by_insertion] h v show ?thesis by blast
qed

section \<open>Sending\<close>

text \<open>
  Claim C5. A text that is empty after trimming makes \<^verbatim>\<open>sendMessage\<close> fail at its first
  line (it returns \<^verbatim>\<open>false\<close>), before any call to the database, which stays as it was.
\<close>

theorem blank_message_rejected:
  "trim messageText = [] \<Longrightarrow>
   sendMessage auth new_id now db recipientId messageText = (Some ValidationError, db) \<and>
   \<not> returned (sendMessage auth new_id now db recipientId messageText)"
  by (simp add: sendMessage_def returned_def)

theorem blank_message_rejected_witness:
  "trim [CHR '' '', CHR 0x09, CHR 0x0A] = [] \<and>
   sendMessage (Some ''a'') ''m3'' 7 db_two ''u'' [CHR '' '', CHR 0x09, CHR 0x0A]
     = (Some ValidationError, db_two)"
proof -
  have h: "trim [CHR '' '', CHR 0x09, CHR 0x0A] = []"
    by (simp add: trim_def is_ws_def)
  from blank_message_rejected[OF h] h show ?thesis by simp
qed

text \<open>
  Claim C6, as stated, fails: user \<open>a\<close> sends \<open>note\<close> to \<open>a\<close>, the call succeeds and
  the row is in the table.
\<close>

theorem self_message_counterexample:
  "sendMessage (Some ''a'') ''m3'' 7 db_two ''a'' ''note'' =
     (None, db_two\<lparr>direct_messages :=
                       direct_messages db_two @ [new_row ''m3'' 7 ''a'' ''a'' ''note'']\<rparr>)"
  by (simp add: sendMessage_def insert_message_def trim_def is_ws_def db_two_def msg_a_def
      msg_b_def new_row_def)

text \<open>
  Claim C6, as amended. A registered, signed-in user who addresses a message to
  themselves is treated like any other sender: the call fails with the validation error
  exactly when the trimmed text is empty, and otherwise inserts the self-addressed row.
\<close>

theorem self_message_accepted:
  assumes "a \<in> set (users db)" "new_id \<notin> set (map id_dm (direct_messages db))"
  shows "sendMessage (Some a) new_id now db a messageText =
     (if trim messageText = [] then (Some ValidationError, db)
      else (None, db\<lparr>direct_messages :=
                        direct_messages db @ [new_row new_id now a a (trim messageText)]\<rparr>))"
  using assms by (simp add: sendMessage_def insert_message_def)

theorem self_message_accepted_witness:
  "''a'' \<in> set (users db_two) \<and> ''m3'' \<notin> set (map id_dm (direct_messages db_two)) \<and>
   sendMessage (Some ''a'') ''m3'' 7 db_two ''a'' ''  note '' =
     (None, db_two\<lparr>direct_messages :=
                       direct_messages db_two @ [new_row ''m3'' 7 ''a'' ''a'' ''note'']\<rparr>)"
proof -
  have h1: "''a'' \<in> set (users db_two)" by (simp add: db_two_def)
  have h2: "''m3'' \<notin> set (map id_dm (direct_messages db_two))"
    by (simp add: db_two_def msg_a_def msg_b_def new_row_def)
  have t: "trim ''  note '' = ''note''" by (simp add: trim_def is_ws_def)
  from self_message_accepted[OF h1 h2, of 7 "''  note ''"] h1 h2 show ?thesis by (simp add: t)
qed

section \<open>Marking as read\<close>

lemma mark_row_idem [simp]: "mark_row uid ids (mark_row uid ids m) = mark_row uid ids m"
  by (simp add: mark_row_def)

lemma mark_row_fields [simp]:
  "id_dm (mark_row uid ids m) = id_dm m"
  "sender_id (mark_row uid ids m) = sender_id m"
  "recipient_id (mark_row uid ids m) = recipient_id m"
  "message (mark_row uid ids m) = message m"
  "created_at (mark_row uid ids m) = created_at m"
  by (simp_all add: mark_row_def)

lemma mark_row_is_read:
  "is_read (mark_row uid ids m) \<longleftrightarrow> is_read m \<or> (id_dm m \<in> set ids \<and> recipient_id m = uid)"
  by (auto simp: mark_row_def)

lemma mark_row_same: "is_read m \<or> recipient_id m \<noteq> uid \<Longrightarrow> mark_row uid ids m = m"
  by (auto simp: mark_row_def)

text \<open>
  Claim C7, as stated, fails: \<open>a\<close> asks to mark \<open>m1\<close>, which \<open>b\<close> sent to \<open>u\<close>. The row
  stays unread, and the update answers without an error.
\<close>

theorem markRead_foreign_counterexample: "markRead ''a'' [''m1''] db_two = Inr db_two"
  by (simp add: markRead_def mark_row_def db_two_def msg_a_def msg_b_def new_row_def)

text \<open>
  Claim C7, as amended. The update never fails and is idempotent. A row that is already
  read, or whose recipient is not the requesting user, is left exactly as it was (such a
  row is skipped silently by the policy, not rejected); a listed row received by the
  requesting user is read afterwards.
\<close>

theorem markRead_idempotent_skips:
  "\<exists>db'. markRead uid ids db = Inr db' \<and> markRead uid ids db' = Inr db' \<and>
         length (direct_messages db') = length (direct_messages db) \<and>
         (\<forall>i < length (direct_messages db).
            (is_read (direct_messages db ! i) \<or> recipient_id (direct_messages db ! i) \<noteq> uid
               \<longrightarrow> direct_messages db' ! i = direct_messages db ! i) \<and>
            (id_dm (direct_messages db ! i) \<in> set ids \<and> recipient_id (direct_messages db ! i) = uid
               \<longrightarrow> direct_messages db' ! i = (direct_messages db ! i)\<lparr>is_read := True\<rparr>))"
  by (auto simp: markRead_def mark_row_same mark_row_def)

theorem markRead_idempotent_skips_witness:
  "\<exists>db'. markRead ''u'' [''m1'', ''m3''] db_three = Inr db' \<and>
         direct_messages db' ! 0 = msg_b\<lparr>is_read := True\<rparr> \<and>
         direct_messages db' ! 2 = msg_out"
proof -
  from markRead_idempotent_skips[of "''u''" "[''m1'', ''m3'']" db_three]
  obtain db' where a: "markRead ''u'' [''m1'', ''m3''] db_three = Inr db'"
    and r: "\<forall>i < length (direct_messages db_three).
            (is_read (direct_messages db_three ! i) \<or> recipient_id (direct_messages db_three ! i) \<noteq> ''u''
               \<longrightarrow> direct_messages db' ! i = direct_messages db_three ! i) \<and>
            (id_dm (direct_messages db_three ! i) \<in> set [''m1'', ''m3''] \<and> recipient_id (direct_messages db_three ! i) = ''u''
               \<longrightarrow> direct_messages db' ! i = (direct_messages db_three ! i)\<lparr>is_read := True\<rparr>)"
    by blast
  have r0: "direct_messages db' ! 0 = msg_b\<lparr>is_read := True\<rparr>"
    using r[rule_format, of 0] by (simp add: db_three_def msg_b_def new_row_def)
  have r2: "direct_messages db' ! 2 = msg_out"
    using r[rule_format, of 2] by (simp add: db_three_def msg_out_def new_row_def)
  from a r0 r2 show ?thesis by blast
qed

section \<open>Opening a conversation\<close>

lemma set_select_thread:
  "set (select_thread \<phi> u u c db) =
     {m \<in> set (direct_messages db).
        (sender_id m = u \<and> recipient_id m = c) \<or> (sender_id m = c \<and> recipient_id m = u)}"
  by (auto simp: select_thread_def order_asc_def can_view_def)

lemma length_unreadIds:
  "length (unreadIds u (select_thread \<phi> u u c db)) = unreadCount db u c"
proof -
  have "(\<lambda>m. (can_view u m \<and> ((sender_id m = u \<and> recipient_id m = c) \<or>
                               (sender_id m = c \<and> recipient_id m = u))) \<and>
             (recipient_id m = u \<and> \<not> is_read m)) =
        (\<lambda>m. recipient_id m = u \<and> sender_id m = c \<and> \<not> is_read m)"
    by (auto simp: can_view_def)
  then show ?thesis
    by (simp add: unreadIds_def select_thread_def order_asc_def filter_sort unreadCount_def)
qed

lemma unread_id_listed:
  assumes "m \<in> set (direct_messages db)" "recipient_id m = u" "sender_id m = c" "\<not> is_read m"
  shows "id_dm m \<in> set (unreadIds u (select_thread \<phi> u u c db))"
  using assms by (auto simp: unreadIds_def set_select_thread)

lemma fst_fetchMessages:
  "fst (fetchMessages (Some u) \<phi> c (db, s)) =
     (if unreadCount db u c = 0 then db
      else db\<lparr>direct_messages :=
                map (mark_row u (unreadIds u (select_thread \<phi> u u c db))) (direct_messages db)\<rparr>)"
proof -
  have e: "unreadIds u (select_thread \<phi> u u c db) = [] \<longleftrightarrow> unreadCount db u c = 0"
    using length_unreadIds[of u \<phi> c db] by (metis length_0_conv)
  show ?thesis
    by (simp add: fetchMessages_def Let_def after_update_def markRead_def e)
qed

lemma conversations_fetchMessages:
  "conversations (snd (fetchMessages auth \<phi> c (db, s))) = conversations s"
  by (simp add: fetchMessages_def Let_def split: option.splits)

lemma unreadCount_after_mark:
  "unreadCount (db\<lparr>direct_messages :=
                map (mark_row u (unreadIds u (select_thread \<phi> u u c db))) (direct_messages db)\<rparr>) u c = 0"
  using unread_id_listed[of _ db u c \<phi>]
  by (auto simp: unreadCount_def filter_empty_conv mark_row_is_read)

lemma unreadCount_after_open: "unreadCount (fst (fetchMessages (Some u) \<phi> c (db, s))) u c = 0"
  by (simp add: fst_fetchMessages unreadCount_after_mark)

lemma open_noop: "unreadCount db u c = 0 \<Longrightarrow> fst (fetchMessages (Some u) \<phi> c (db, s)) = db"
  by (simp add: fst_fetchMessages)

lemma partition_of_mark:
  "partition_of (db\<lparr>direct_messages := map (mark_row a ids) (direct_messages db)\<rparr>) u c =
     map (mark_row a ids) (partition_of db u c)"
  by (simp add: partition_of_def filter_map comp_def is_counterpart_def)

lemma partition_after_open:
  "partition_of db u c \<noteq> [] \<Longrightarrow> partition_of (fst (fetchMessages (Some a) \<phi> d (db, s))) u c \<noteq> []"
  by (simp add: fst_fetchMessages partition_of_mark)

text \<open>
  Claim C9, as stated, fails. The session of \<open>u\<close> fetches its conversations and opens the
  one with \<open>a\<close>: the table has no unread message from \<open>a\<close> left, and the entry of \<open>a\<close> in
  the list that the hook holds still says one.
\<close>

theorem open_leaves_held_count_counterexample:
  "conversations (snd (fetchMessages (Some ''u'') by_insertion ''a''
      (db_two, fetchConversations (Some ''u'') by_insertion db_two hook0))) = [conv_b, conv_a] \<and>
   doctor_id conv_a = ''a'' \<and> unread_count conv_a = 1 \<and>
   unreadCount (fst (fetchMessages (Some ''u'') by_insertion ''a''
      (db_two, fetchConversations (Some ''u'') by_insertion db_two hook0))) ''u'' ''a'' = 0"
  by (simp add: conversations_fetchMessages fetchConversations_def rescan_db_two
      unreadCount_after_open conv_a_def)

text \<open>
  Claim C9, as amended. \<^verbatim>\<open>fetchMessages\<close> for owner \<open>u\<close> and counterpart \<open>c\<close> leaves no
  unread message from \<open>c\<close> to \<open>u\<close> in the table; when there was none before, the database
  is not touched; a second call right after the first leaves the database as the first
  left it. The conversations that the hook holds are not touched by the call; the next
  \<^verbatim>\<open>fetchConversations\<close> shows the one conversation of \<open>c\<close> with no unread message.
\<close>

theorem open_conversation_marks_read:
  "unreadCount (fst (fetchMessages (Some u) \<phi> c (db, s))) u c = 0 \<and>
   (unreadCount db u c = 0 \<longrightarrow> fst (fetchMessages (Some u) \<phi> c (db, s)) = db) \<and>
   fst (fetchMessages (Some u) \<phi>' c (fetchMessages (Some u) \<phi> c (db, s))) =
     fst (fetchMessages (Some u) \<phi> c (db, s)) \<and>
   conversations (snd (fetchMessages (Some u) \<phi> c (db, s))) = conversations s \<and>
   (partition_of db u c \<noteq> [] \<longrightarrow>
      (\<exists>k. filter (\<lambda>k. doctor_id k = c)
              (conversations (fetchConversations (Some u) \<phi>''
                 (fst (fetchMessages (Some u) \<phi> c (db, s)))
                 (snd (fetchMessages (Some u) \<phi> c (db, s))))) = [k] \<and>
           unread_count k = 0))"
proof -
  let ?w = "fetchMessages (Some u) \<phi> c (db, s)"
  have 1: "unreadCount (fst ?w) u c = 0" by (rule unreadCount_after_open)
  have 2: "unreadCount db u c = 0 \<longrightarrow> fst ?w = db" by (simp add: open_noop)
  have "fst (fetchMessages (Some u) \<phi>' c (fst ?w, snd ?w)) = fst ?w"
    using 1 by (rule open_noop)
  then have 3: "fst (fetchMessages (Some u) \<phi>' c ?w) = fst ?w" by simp
  have 4: "conversations (snd ?w) = conversations s" by (rule conversations_fetchMessages)
  have 5: "\<exists>k. filter (\<lambda>k. doctor_id k = c)
              (conversations (fetchConversations (Some u) \<phi>'' (fst ?w) (snd ?w))) = [k] \<and>
           unread_count k = 0" if ne: "partition_of db u c \<noteq> []"
  proof -
    from ne have "partition_of (fst ?w) u c \<noteq> []" by (rule partition_after_open)
    from rescan_entry[OF this, of \<phi>''] obtain k
      where k: "filter (\<lambda>k. doctor_id k = c) (rescan \<phi>'' u (fst ?w)) = [k]" by blast
    then have "k \<in> set (filter (\<lambda>k. doctor_id k = c) (rescan \<phi>'' u (fst ?w)))" by simp
    then have "k \<in> set (rescan \<phi>'' u (fst ?w))" and "doctor_id k = c" by simp_all
    with unread_count_rescan[of k \<phi>'' u "fst ?w"] 1 have "unread_count k = 0" by simp
    with k show ?thesis by (auto simp: fetchConversations_def)
  qed
  from 1 2 3 4 5 show ?thesis by blast
qed

theorem open_conversation_marks_read_witness:
  "unreadCount db_three ''b'' ''u'' = 0 \<and> partition_of db_three ''b'' ''u'' \<noteq> [] \<and>
   fst (fetchMessages (Some ''b'') by_insertion ''u'' (db_three, hook0)) = db_three \<and>
   unreadCount db_three ''u'' ''a'' = 1 \<and>
   unreadCount (fst (fetchMessages (Some ''u'') by_insertion ''a'' (db_three, hook0))) ''u'' ''a'' = 0 \<and>
   (\<exists>k. filter (\<lambda>k. doctor_id k = ''u'')
           (conversations (fetchConversations (Some ''b'') by_insertion
              (fst (fetchMessages (Some ''b'') by_insertion ''u'' (db_three, hook0)))
              (snd (fetchMessages (Some ''b'') by_insertion ''u'' (db_three, hook0))))) = [k] \<and>
        unread_count k = 0)"
proof -
  have h: "unreadCount db_three ''b'' ''u'' = 0" by code_simp
  have p: "partition_of db_three ''b'' ''u'' \<noteq> []" by code_simp
  have k: "unreadCount db_three ''u'' ''a'' = 1" by code_simp
  note B = open_conversation_marks_read[of "''b''" by_insertion "''u''" db_three hook0
      by_insertion by_insertion]
  note U = open_conversation_marks_read[of "''u''" by_insertion "''a''" db_three hook0
      by_insertion by_insertion]
  from B h have 1: "fst (fetchMessages (Some ''b'') by_insertion ''u'' (db_three, hook0)) = db_three"
    by blast
  from U have 2: "unreadCount (fst (fetchMessages (Some ''u'') by_insertion ''a''
      (db_three, hook0))) ''u'' ''a'' = 0"
    by blast
  from B p have 3: "\<exists>k. filter (\<lambda>k. doctor_id k = ''u'')
           (conversations (fetchConversations (Some ''b'') by_insertion
              (fst (fetchMessages (Some ''b'') by_insertion ''u'' (db_three, hook0)))
              (snd (fetchMessages (Some ''b'') by_insertion ''u'' (db_three, hook0))))) = [k] \<and>
        unread_count k = 0"
    by blast
  from h p 1 k 2 3 show ?thesis by blast
qed

section \<open>The realtime handler\<close>

lemma on_insert_viewing:
  assumes "c \<noteq> []" "sender_id newMsg = c" "recipient_id newMsg = u"
  shows "on_insert u (Some c) \<phi> newMsg (db, s) =
     (db\<lparr>direct_messages := map (mark_row u [id_dm newMsg]) (direct_messages db)\<rparr>,
      (s\<lparr>messages := messages s @ [enrichedMsg db newMsg]\<rparr>)
        \<lparr>conversations :=
           rescan \<phi> u (db\<lparr>direct_messages := map (mark_row u [id_dm newMsg]) (direct_messages db)\<rparr>),
         loading := False\<rparr>)"
  using assms
  by (simp add: on_insert_def viewing_def Let_def after_update_def markRead_def fetchConversations_def)

lemma unreadCount_mark_one:
  "unreadCount (db\<lparr>direct_messages := map (mark_row u [i]) (direct_messages db)\<rparr>) u c =
     unread_except db u c i"
proof -
  have "filter (\<lambda>m. recipient_id m = u \<and> sender_id m = c \<and> \<not> is_read m)
          (map (mark_row u [i]) xs) =
        map (mark_row u [i])
          (filter (\<lambda>m. recipient_id m = u \<and> sender_id m = c \<and> \<not> is_read m \<and> id_dm m \<noteq> i) xs)" for xs
    by (induction xs) (auto simp: mark_row_is_read)
  then show ?thesis by (simp add: unreadCount_def unread_except_def)
qed

text \<open>
  What a callback does for the conversation it captured: a row from doctor \<open>c\<close> to the
  user is appended to the thread and marked as read, and does not count among the unread
  messages of \<open>c\<close>.
\<close>

lemma on_insert_captured_conversation:
  assumes "c \<noteq> []" "sender_id newMsg = c" "recipient_id newMsg = u"
  shows "messages (snd (on_insert u (Some c) \<phi> newMsg (db, s)))
           = messages s @ [enrichedMsg db newMsg] \<and>
         filter (\<lambda>m. id_dm m = id_dm newMsg \<and> recipient_id m = u \<and> \<not> is_read m)
           (direct_messages (fst (on_insert u (Some c) \<phi> newMsg (db, s)))) = [] \<and>
         unreadCount (fst (on_insert u (Some c) \<phi> newMsg (db, s))) u c
           = unread_except db u c (id_dm newMsg)"
  by (auto simp: on_insert_viewing[OF assms] unreadCount_mark_one filter_empty_conv
      mark_row_is_read)

text \<open>
  Claim C10 does not hold of the hook: the callback tests the selection it captured when
  it subscribed, not the conversation that is open now, and the effect never removes a
  callback. With a client that keeps the first callback of the channel: the session of
  \<open>u\<close> mounts with no selection, opens the conversation with \<open>a\<close>, and \<open>a\<close> sends
  \<open>ping\<close>. The row is not appended to the open thread, it stays unread in the table, and
  the conversation of \<open>a\<close> counts it. With a client that keeps every callback: after the
  selections \<open>a\<close>, \<open>b\<close>, \<open>a\<close> the same row is appended to the thread twice.
\<close>

theorem stale_callback_leaves_message_unread:
  "selected (run keep_first ''u'' w_three
      [Select (Some ''a'') by_insertion,
       Send (Some ''a'') ''u'' ''ping'' ''m4'' 9 by_insertion]) = Some ''a'' \<and>
   ''m4'' \<notin> set (map id_dm (messages (hook (run keep_first ''u'' w_three
      [Select (Some ''a'') by_insertion,
       Send (Some ''a'') ''u'' ''ping'' ''m4'' 9 by_insertion])))) \<and>
   direct_messages (store (run keep_first ''u'' w_three
      [Select (Some ''a'') by_insertion,
       Send (Some ''a'') ''u'' ''ping'' ''m4'' 9 by_insertion])) ! 3 = msg_new \<and>
   is_read msg_new = False \<and>
   hd (conversations (hook (run keep_first ''u'' w_three
      [Select (Some ''a'') by_insertion,
       Send (Some ''a'') ''u'' ''ping'' ''m4'' 9 by_insertion]))) = conv_a_ping \<and>
   count_list (map id_dm (messages (hook (run keep_all ''u'' w_three
      [Select (Some ''a'') by_insertion, Select (Some ''b'') by_insertion,
       Select (Some ''a'') by_insertion,
       Send (Some ''a'') ''u'' ''ping'' ''m4'' 9 by_insertion])))) ''m4'' = 2"
  by code_simp

section \<open>Read state over time\<close>

lemma evolves_refl [simp]: "evolves xs xs"
  by (simp add: evolves_def)

lemma evolves_trans: "evolves xs ys \<Longrightarrow> evolves ys zs \<Longrightarrow> evolves xs zs"
  unfolding evolves_def
proof (intro conjI allI impI)
  assume a: "length xs \<le> length ys \<and>
     (\<forall>i < length xs. ys ! i = (xs ! i)\<lparr>is_read := is_read (ys ! i)\<rparr> \<and>
                       (is_read (xs ! i) \<longrightarrow> is_read (ys ! i)))"
    and b: "length ys \<le> length zs \<and>
     (\<forall>i < length ys. zs ! i = (ys ! i)\<lparr>is_read := is_read (zs ! i)\<rparr> \<and>
                       (is_read (ys ! i) \<longrightarrow> is_read (zs ! i)))"
  show "length xs \<le> length zs" using a b by simp
  fix i assume i: "i < length xs"
  then have j: "i < length ys" using a by simp
  have y: "ys ! i = (xs ! i)\<lparr>is_read := is_read (ys ! i)\<rparr>" using a i by blast
  have z: "zs ! i = (ys ! i)\<lparr>is_read := is_read (zs ! i)\<rparr>" using b j by blast
  show "zs ! i = (xs ! i)\<lparr>is_read := is_read (zs ! i)\<rparr>"
    by (subst z, subst y) simp
  show "is_read (zs ! i)" if "is_read (xs ! i)"
    using a b i j that by blast
qed

lemma mark_row_as_update: "mark_row u ids m = m\<lparr>is_read := is_read (mark_row u ids m)\<rparr>"
  by (simp add: mark_row_def)

lemma evolves_mark: "evolves xs (map (mark_row u ids) xs)"
  using mark_row_as_update by (simp add: evolves_def mark_row_is_read)

lemma evolves_snoc: "evolves xs (xs @ [m])"
  by (simp add: evolves_def nth_append)

lemma evolves_fetchMessages:
  "evolves (direct_messages db) (direct_messages (fst (fetchMessages (Some a) \<phi> d (db, s))))"
  by (simp add: fst_fetchMessages evolves_mark)

lemma evolves_open_selected:
  "evolves (direct_messages db) (direct_messages (fst (open_selected u \<phi> sel (db, s))))"
  by (simp add: open_selected_def evolves_fetchMessages split: option.splits)

lemma sendMessage_cases:
  "(\<exists>e. sendMessage auth i t db r body = (Some e, db)) \<or>
   (\<exists>a. auth = Some a \<and>
        sendMessage auth i t db r body =
          (None, db\<lparr>direct_messages := direct_messages db @ [new_row i t a r (trim body)]\<rparr>))"
  by (auto simp: sendMessage_def insert_message_def split: option.splits)

lemma fst_on_insert:
  "fst (on_insert u sel \<phi> m (db, s)) = db \<or>
   fst (on_insert u sel \<phi> m (db, s)) =
     db\<lparr>direct_messages := map (mark_row u [id_dm m]) (direct_messages db)\<rparr>"
  by (simp add: on_insert_def Let_def after_update_def markRead_def)

lemma evolves_on_insert:
  "evolves (direct_messages (fst p)) (direct_messages (fst (on_insert u sel \<phi> m p)))"
  using fst_on_insert[of u sel \<phi> m "fst p" "snd p"] by (auto simp: evolves_mark)

lemma evolves_deliver:
  "evolves (direct_messages (fst p)) (direct_messages (fst (deliver u \<phi> cs m p)))"
proof (induction cs arbitrary: p)
  case Nil
  then show ?case by (simp add: deliver_def)
next
  case (Cons sel cs)
  have "evolves (direct_messages (fst p)) (direct_messages (fst (on_insert u sel \<phi> m p)))"
    by (rule evolves_on_insert)
  moreover have "evolves (direct_messages (fst (on_insert u sel \<phi> m p)))
      (direct_messages (fst (deliver u \<phi> cs m (on_insert u sel \<phi> m p))))"
    by (rule Cons.IH)
  ultimately show ?case
    by (simp add: deliver_def) (rule evolves_trans)
qed

lemma evolves_step:
  "evolves (direct_messages (store w)) (direct_messages (store (step client u w e)))"
proof (cases e)
  case (Refetch \<phi>)
  then show ?thesis by simp
next
  case (Select sel \<phi>)
  then show ?thesis by (simp add: set_pair_def evolves_open_selected)
next
  case (RefetchMessages \<phi>)
  then show ?thesis by (simp add: set_pair_def evolves_open_selected)
next
  case (Send auth r body i t \<phi>)
  from sendMessage_cases[of auth i t "store w" r body]
  show ?thesis
  proof
    assume "\<exists>e. sendMessage auth i t (store w) r body = (Some e, store w)"
    then show ?thesis using Send by auto
  next
    assume "\<exists>a. auth = Some a \<and> sendMessage auth i t (store w) r body =
          (None, (store w)\<lparr>direct_messages := direct_messages (store w) @ [new_row i t a r (trim body)]\<rparr>)"
    then obtain a where s: "sendMessage auth i t (store w) r body =
          (None, (store w)\<lparr>direct_messages := direct_messages (store w) @ [new_row i t a r (trim body)]\<rparr>)"
      by blast
    let ?db' = "(store w)\<lparr>direct_messages := direct_messages (store w) @ [new_row i t a r (trim body)]\<rparr>"
    have "evolves (direct_messages (store w)) (direct_messages ?db')"
      by (simp add: evolves_snoc)
    moreover have "evolves (direct_messages ?db')
        (direct_messages (fst (deliver u \<phi> (callbacks w) (last (direct_messages ?db')) (?db', hook w))))"
      using evolves_deliver[of "(?db', hook w)"] by simp
    ultimately show ?thesis using Send s
      by (simp add: set_pair_def del: last_snoc) (rule evolves_trans)
  qed
next
  case (RemoteOpen a d \<phi>)
  then show ?thesis by (simp add: evolves_fetchMessages)
qed

lemma run_snoc: "run client u w (evs @ [e]) = step client u (run client u w evs) e"
  by (simp add: run_def)

lemma run_append: "run client u w (evs1 @ evs2) = run client u (run client u w evs1) evs2"
  by (simp add: run_def)

lemma evolves_run:
  "evolves (direct_messages (store w)) (direct_messages (store (run client u w evs)))"
proof (induction evs rule: rev_induct)
  case Nil
  then show ?case by (simp add: run_def)
next
  case (snoc e evs)
  then show ?case
    using evolves_step[of "run client u w evs" client u e] by (simp add: run_snoc) (rule evolves_trans)
qed

text \<open>
  Claim C8. Along every sequence of events, a row that is read at one point is still there,
  with the same id and still read, at every later point: \<^verbatim>\<open>is_read\<close> goes from false to
  true at most once and never back.
\<close>

theorem is_read_monotonic:
  assumes "i < length (direct_messages (store (run client u w evs1)))"
    and "is_read (direct_messages (store (run client u w evs1)) ! i)"
  shows "i < length (direct_messages (store (run client u w (evs1 @ evs2)))) \<and>
         is_read (direct_messages (store (run client u w (evs1 @ evs2))) ! i) \<and>
         id_dm (direct_messages (store (run client u w (evs1 @ evs2))) ! i) =
           id_dm (direct_messages (store (run client u w evs1)) ! i)"
proof -
  let ?xs = "direct_messages (store (run client u w evs1))"
  let ?ys = "direct_messages (store (run client u w (evs1 @ evs2)))"
  have e: "evolves ?xs ?ys"
    using evolves_run[of "run client u w evs1" client u evs2] by (simp add: run_append)
  then have "length ?xs \<le> length ?ys" by (simp add: evolves_def)
  with assms have 1: "i < length ?ys" by simp
  from e assms have 2: "is_read (?ys ! i)" by (simp add: evolves_def)
  from e assms have "?ys ! i = (?xs ! i)\<lparr>is_read := is_read (?ys ! i)\<rparr>"
    unfolding evolves_def by blast
  then have "id_dm (?ys ! i) = id_dm ((?xs ! i)\<lparr>is_read := is_read (?ys ! i)\<rparr>)"
    by simp
  then have 3: "id_dm (?ys ! i) = id_dm (?xs ! i)" by simp
  from 1 2 3 show ?thesis by blast
qed

theorem is_read_monotonic_witness:
  "1 < length (direct_messages (store (run keep_first ''u'' w_two
      [Select (Some ''a'') by_insertion]))) \<and>
   is_read (direct_messages (store (run keep_first ''u'' w_two
      [Select (Some ''a'') by_insertion])) ! 1) \<and>
   is_read (direct_messages (store (run keep_first ''u'' w_two
      ([Select (Some ''a'') by_insertion] @
       [Send (Some ''a'') ''u'' ''ping'' ''m9'' 9 by_insertion, Refetch by_insertion,
        Select (Some ''b'') by_insertion]))) ! 1)"
proof -
  have h1: "1 < length (direct_messages (store (run keep_first ''u'' w_two
      [Select (Some ''a'') by_insertion])))"
    by code_simp
  have h2: "is_read (direct_messages (store (run keep_first ''u'' w_two
      [Select (Some ''a'') by_insertion])) ! 1)"
    by code_simp
  from is_read_monotonic[OF h1 h2,
      of "[Send (Some ''a'') ''u'' ''ping'' ''m9'' 9 by_insertion, Refetch by_insertion,
           Select (Some ''b'') by_insertion]"] h1 h2
  show ?thesis by blast
qed

section \<open>The held list and the rescan\<close>

























text \<open>Two rescans of one table can differ when rows share a \<^verbatim>\<open>created_at\<close>.\<close>

lemma rescan_depends_on_tie_order:
  "rescan by_insertion ''u'' db_two = [conv_b, conv_a] \<and>
   rescan m2_first ''u'' db_two = [conv_a, conv_b]"
  by code_simp







end
